theory Spec2Isabelle
  imports Main "HOL-Library.Multiset" "HOL-Library.Sublist" "HOL-Library.Char_ord"
    "HOL-Library.List_Lexorder"
begin

section \<open>The unified library view of UNIFIDECK\<close>

text \<open>
  A shallow embedding of \<^verbatim>\<open>src/views/UnifiedLibraryView.tsx\<close>: the two memoised
  computations of \<^verbatim>\<open>UnifiedLibraryViewInner\<close>, \<^verbatim>\<open>enhancedGames\<close> (lines 65-88) and
  \<^verbatim>\<open>filteredGames\<close> (lines 91-127), and the render function around them.
\<close>

subsection \<open>Data model\<close>

text \<open>\<^verbatim>\<open>export type LibraryFilter = "all" | "installed" | "great-on-deck"\<close> (line 8).\<close>

datatype LibraryFilter = All | Installed | GreatOnDeck

text \<open>
  The game objects delivered by \<^verbatim>\<open>useSteamLibrary\<close>. Their type is declared outside the
  file; the record has the five fields the view reads. The rating and the store tag are the
  JavaScript values the code compares with string literals. A store tag may be absent
  (\<^verbatim>\<open>undefined\<close>, here \<open>None\<close>) or the empty string: lines 73 and 82 test
  \<^verbatim>\<open>!game.store\<close> and \<^verbatim>\<open>g.store || 'undefined'\<close>.
\<close>

record game =
  appId :: int
  title :: string
  isInstalled :: bool
  deckVerified :: string
  store :: "string option"

text \<open>
  JavaScript truthiness of a value that is a string or \<^verbatim>\<open>undefined\<close>/\<^verbatim>\<open>null\<close>:
  only a non-empty string is truthy.
\<close>

definition truthy :: "string option \<Rightarrow> bool" where
  "truthy v = (case v of None \<Rightarrow> False | Some s \<Rightarrow> s \<noteq> [])"

text \<open>
  Modelled from the spec: the type \<^verbatim>\<open>StoreType\<close>, imported at line 4 from
  \<^verbatim>\<open>../types/steam\<close>, which is not among the sources. The spec lists its tags: steam,
  epic, gog and unknown. It is the type of the tags that \<^verbatim>\<open>getStoreForApp\<close> finds.
\<close>

definition StoreType :: "string set" where
  "StoreType = {''steam'', ''epic'', ''gog'', ''unknown''}"

subsection \<open>The string operations of the host language\<close>

text \<open>
  Strings are sequences of code units; a \<^typ>\<open>char\<close> stands for a code unit in the range
  U+0000 to U+00FF. \<^verbatim>\<open>String.prototype.trim\<close> removes white space and line terminators at
  both ends; in this range they are TAB, LF, VT, FF, CR, SPACE and NO-BREAK SPACE.
\<close>

definition isWhiteSpace :: "char \<Rightarrow> bool" where
  "isWhiteSpace c = ((of_char c :: nat) \<in> {9, 10, 11, 12, 13, 32, 160})"

definition trim :: "string \<Rightarrow> string" where
  "trim s = rev (dropWhile isWhiteSpace (rev (dropWhile isWhiteSpace s)))"

text \<open>
  \<^verbatim>\<open>String.prototype.toLowerCase\<close> in the same range: the letters A to Z and the
  letters U+00C0 to U+00DE (without the multiplication sign U+00D7) move up by 32, every
  other code unit stays.
\<close>

definition lowerChar :: "char \<Rightarrow> char" where
  "lowerChar c =
     (let n = (of_char c :: nat)
      in if (65 \<le> n \<and> n \<le> 90) \<or> (192 \<le> n \<and> n \<le> 222 \<and> n \<noteq> 215)
         then char_of (n + 32) else c)"

definition toLowerCase :: "string \<Rightarrow> string" where
  "toLowerCase s = map lowerChar s"

text \<open>\<^verbatim>\<open>s.includes(q)\<close>: \<open>q\<close> occurs in \<open>s\<close> as a contiguous run of code units.\<close>

fun str_includes :: "string \<Rightarrow> string \<Rightarrow> bool" where
  "str_includes [] q = (q = [])"
| "str_includes (c # cs) q = (prefix q (c # cs) \<or> str_includes cs q)"

subsection \<open>Sorting with a comparator\<close>

text \<open>
  \<^verbatim>\<open>Array.prototype.sort(cmp)\<close> is a stable sort: an element goes before another when the
  comparator is negative, after it when positive, and keeps its place among the elements it
  compares equal to. Insertion from the right end realises this order.
\<close>

fun insertBy :: "('a \<Rightarrow> 'a \<Rightarrow> int) \<Rightarrow> 'a \<Rightarrow> 'a list \<Rightarrow> 'a list" where
  "insertBy cmp x [] = [x]"
| "insertBy cmp x (y # ys) = (if cmp x y \<le> 0 then x # y # ys else y # insertBy cmp x ys)"

definition sortBy :: "('a \<Rightarrow> 'a \<Rightarrow> int) \<Rightarrow> 'a list \<Rightarrow> 'a list" where
  "sortBy cmp xs = foldr (insertBy cmp) xs []"

text \<open>
  \<^verbatim>\<open>localeCompare\<close> depends on the collation of the host's locale and is a parameter
  \<open>lc\<close> of the pipeline. A collation is a consistent comparator: one string is before
  another exactly when the other is after it, and the order is transitive.
\<close>

definition consistent :: "(string \<Rightarrow> string \<Rightarrow> int) \<Rightarrow> bool" where
  "consistent lc \<longleftrightarrow>
     (\<forall>a b. (lc a b < 0) = (0 < lc b a)) \<and>
     (\<forall>a b c. lc a b \<le> 0 \<longrightarrow> lc b c \<le> 0 \<longrightarrow> lc a c \<le> 0)"

text \<open>
  One collation to run the pipeline with: strings compare by their lower-cased code units,
  lexicographically.
\<close>

definition caseFoldCompare :: "string \<Rightarrow> string \<Rightarrow> int" where
  "caseFoldCompare a b =
     (let x = toLowerCase a; y = toLowerCase b
      in if x < y then - 1 else if x = y then 0 else 1)"

subsection \<open>Enhancing the games with the store metadata (lines 65-88)\<close>

text \<open>
  The callback of \<^verbatim>\<open>games.map\<close>, lines 66-78. \<open>getStoreForApp\<close> comes from the hook
  \<^verbatim>\<open>useUnifideckGames\<close> and is a parameter. The console output of lines 73-75 and 80-85
  does not take part in the value returned.
\<close>

definition enhance :: "(int \<Rightarrow> string option) \<Rightarrow> game \<Rightarrow> game" where
  "enhance getStoreForApp g =
     (let s = getStoreForApp (appId g)
      in if truthy s then g\<lparr>store := s\<rparr> else g)"

definition enhancedGames :: "(int \<Rightarrow> string option) \<Rightarrow> game list \<Rightarrow> game list" where
  "enhancedGames getStoreForApp games = map (enhance getStoreForApp) games"

subsection \<open>Filtering and sorting (lines 91-127)\<close>

text \<open>Lines 95-108: the main filter. The \<^verbatim>\<open>default\<close> branch is that of \<^verbatim>\<open>"all"\<close>.\<close>

fun applyMainFilter :: "LibraryFilter \<Rightarrow> game list \<Rightarrow> game list" where
  "applyMainFilter Installed result = filter (\<lambda>g. isInstalled g) result"
| "applyMainFilter GreatOnDeck result =
     filter (\<lambda>g. deckVerified g = ''verified'' \<or> deckVerified g = ''playable'') result"
| "applyMainFilter All result = result"

text \<open>Lines 111-113: the store filter.\<close>

definition applyStoreFilter :: "string \<Rightarrow> game list \<Rightarrow> game list" where
  "applyStoreFilter storeFilter result =
     (if storeFilter \<noteq> ''all''
      then filter (\<lambda>g. store g = Some storeFilter) result
      else result)"

text \<open>
  Lines 116-121: the search filter. The guard trims the query; the query that is matched is
  \<^verbatim>\<open>searchQuery.toLowerCase()\<close>, not trimmed.
\<close>

definition applySearchFilter :: "string \<Rightarrow> game list \<Rightarrow> game list" where
  "applySearchFilter searchQuery result =
     (if trim searchQuery \<noteq> []
      then (let query = toLowerCase searchQuery
            in filter (\<lambda>g. str_includes (toLowerCase (title g)) query) result)
      else result)"

text \<open>Line 124: \<^verbatim>\<open>result.sort((a, b) => a.title.localeCompare(b.title))\<close>.\<close>

definition sortByTitle :: "(string \<Rightarrow> string \<Rightarrow> int) \<Rightarrow> game list \<Rightarrow> game list" where
  "sortByTitle lc result = sortBy (\<lambda>a b. lc (title a) (title b)) result"

text \<open>The memoised value: the four steps in the order of the source.\<close>

definition filteredGames ::
  "(string \<Rightarrow> string \<Rightarrow> int) \<Rightarrow> game list \<Rightarrow> LibraryFilter \<Rightarrow> string \<Rightarrow> string \<Rightarrow> game list"
where
  "filteredGames lc enhanced filt storeFilter searchQuery =
     sortByTitle lc
       (applySearchFilter searchQuery
         (applyStoreFilter storeFilter
           (applyMainFilter filt enhanced)))"

subsection \<open>The same computations on the heap\<close>

text \<open>
  Arrays and objects are shared and mutable in the source: \<^verbatim>\<open>games.map\<close> returns an element
  itself when no metadata is found, and \<^verbatim>\<open>result.sort\<close> sorts in place. The heap keeps the
  objects and the arrays apart; a reference is an index into the store, allocation appends.
  The console is part of the state.
\<close>

datatype logEntry =
    LogRender LibraryFilter
  | LogNoMetadata int string "string option"
  | LogEnhanced nat
  | LogStoreCounts "(string \<times> nat) list"

record heap =
  objects :: "game list"
  arrays :: "nat list list"
  console :: "logEntry list"

definition allocObject :: "game \<Rightarrow> heap \<Rightarrow> nat \<times> heap" where
  "allocObject g h = (length (objects h), h\<lparr>objects := objects h @ [g]\<rparr>)"

definition allocArray :: "nat list \<Rightarrow> heap \<Rightarrow> nat \<times> heap" where
  "allocArray refs h = (length (arrays h), h\<lparr>arrays := arrays h @ [refs]\<rparr>)"

definition consoleLog :: "logEntry \<Rightarrow> heap \<Rightarrow> heap" where
  "consoleLog e h = h\<lparr>console := console h @ [e]\<rparr>"

text \<open>Every reference held by an array points to an object.\<close>

definition wellFormed :: "heap \<Rightarrow> bool" where
  "wellFormed h = list_all (list_all (\<lambda>r. r < length (objects h))) (arrays h)"

text \<open>The sequence of objects an array holds.\<close>

definition contents :: "heap \<Rightarrow> nat \<Rightarrow> game list" where
  "contents h a = map (\<lambda>r. objects h ! r) (arrays h ! a)"

text \<open>
  Lines 66-78 for each element, in order: \<^verbatim>\<open>{ ...game, store }\<close> is a new object, the
  other branch returns the element's own reference, after the console line of 73-75. The
  array that \<^verbatim>\<open>map\<close> returns takes the references; where it lies on the heap stands for
  its identity only.
\<close>

fun enhanceEach :: "(int \<Rightarrow> string option) \<Rightarrow> nat list \<Rightarrow> heap \<Rightarrow> nat list \<times> heap" where
  "enhanceEach getStoreForApp [] h = ([], h)"
| "enhanceEach getStoreForApp (r # rs) h =
     (let g = objects h ! r;
          s = getStoreForApp (appId g);
          (r', h1) =
            (if truthy s then allocObject (g\<lparr>store := s\<rparr>) h
             else (r, if store g = Some ''unknown'' \<or> \<not> truthy (store g)
                      then consoleLog (LogNoMetadata (appId g) (title g) (store g)) h
                      else h));
          (rs', h2) = enhanceEach getStoreForApp rs h1
      in (r' # rs', h2))"

text \<open>
  Lines 81-84: the tally of store tags, an object whose keys are listed here in the order of
  their first occurrence. The key is \<^verbatim>\<open>g.store || 'undefined'\<close>. The tally is only
  printed.
\<close>

fun bump :: "string \<Rightarrow> (string \<times> nat) list \<Rightarrow> (string \<times> nat) list" where
  "bump k [] = [(k, 1)]"
| "bump k ((k', n) # acc) = (if k = k' then (k', n + 1) # acc else (k', n) # bump k acc)"

definition storeKey :: "game \<Rightarrow> string" where
  "storeKey g = (if truthy (store g) then the (store g) else ''undefined'')"

definition enhancedGamesHeap :: "(int \<Rightarrow> string option) \<Rightarrow> nat \<Rightarrow> heap \<Rightarrow> nat \<times> heap" where
  "enhancedGamesHeap getStoreForApp games h =
     (let (refs, h1) = enhanceEach getStoreForApp (arrays h ! games) h;
          (enhanced, h2) = allocArray refs h1;
          h3 = consoleLog (LogEnhanced (length refs)) h2;
          storeCounts = foldl (\<lambda>acc r. bump (storeKey (objects h3 ! r)) acc) [] refs;
          h4 = consoleLog (LogStoreCounts storeCounts) h3
      in (enhanced, h4))"

text \<open>
  Lines 92-126. \<^verbatim>\<open>[...enhancedGames]\<close> and every \<^verbatim>\<open>filter\<close> allocate an array;
  \<^verbatim>\<open>sort\<close> overwrites the array \<^verbatim>\<open>result\<close> refers to at that point.
\<close>

definition filterArray :: "(game \<Rightarrow> bool) \<Rightarrow> nat \<Rightarrow> heap \<Rightarrow> nat \<times> heap" where
  "filterArray p a h = allocArray (filter (\<lambda>r. p (objects h ! r)) (arrays h ! a)) h"

definition sortArray :: "(game \<Rightarrow> game \<Rightarrow> int) \<Rightarrow> nat \<Rightarrow> heap \<Rightarrow> heap" where
  "sortArray cmp a h =
     h\<lparr>arrays :=
         (arrays h)[a := sortBy (\<lambda>x y. cmp (objects h ! x) (objects h ! y)) (arrays h ! a)]\<rparr>"

definition filteredGamesHeap ::
  "(string \<Rightarrow> string \<Rightarrow> int) \<Rightarrow> nat \<Rightarrow> LibraryFilter \<Rightarrow> string \<Rightarrow> string \<Rightarrow> heap \<Rightarrow> nat \<times> heap"
where
  "filteredGamesHeap lc enhanced filt storeFilter searchQuery h =
     (let (result, h1) = allocArray (arrays h ! enhanced) h;
          (result, h2) =
            (case filt of
               Installed \<Rightarrow> filterArray (\<lambda>g. isInstalled g) result h1
             | GreatOnDeck \<Rightarrow>
                 filterArray (\<lambda>g. deckVerified g = ''verified'' \<or> deckVerified g = ''playable'')
                   result h1
             | All \<Rightarrow> (result, h1));
          (result, h3) =
            (if storeFilter \<noteq> ''all''
             then filterArray (\<lambda>g. store g = Some storeFilter) result h2
             else (result, h2));
          (result, h4) =
            (if trim searchQuery \<noteq> []
             then (let query = toLowerCase searchQuery
                   in filterArray (\<lambda>g. str_includes (toLowerCase (title g)) query) result h3)
             else (result, h3));
          h5 = sortArray (\<lambda>a b. lc (title a) (title b)) result h4
      in (result, h5))"

text \<open>
  The abstraction used for the pipeline's steps: the array \<open>a\<close> of \<open>h'\<close> was allocated
  after \<open>h\<close> and holds the entries \<open>xs\<close>, and the arrays, the objects and the console of
  \<open>h\<close> are as they were.
\<close>

definition tracks :: "heap \<Rightarrow> heap \<Rightarrow> nat \<Rightarrow> game list \<Rightarrow> bool" where
  "tracks h h' a xs \<longleftrightarrow>
     length (arrays h) \<le> a \<and> a < length (arrays h') \<and>
     take (length (arrays h)) (arrays h') = arrays h \<and>
     objects h' = objects h \<and> console h' = console h \<and>
     contents h' a = xs"

subsection \<open>The render function (lines 55-203)\<close>

text \<open>
  What the component returns: the error field of lines 130-140 with the error text, or the
  panel of lines 143-202 with its title, the two controls and the grid's arguments.
\<close>

datatype view =
    ErrorField string
  | LibraryPanel string string string nat bool

text \<open>
  Lines 214-225. The \<^verbatim>\<open>default\<close> branch is out of reach of the three values of the type.
\<close>

fun getFilterTitle :: "LibraryFilter \<Rightarrow> string" where
  "getFilterTitle All = ''All Games''"
| "getFilterTitle Installed = ''Installed''"
| "getFilterTitle GreatOnDeck = ''Great on Deck''"

text \<open>
  \<^verbatim>\<open>useMemo\<close>: the value of the last render is kept while the dependencies are the same
  (arrays and objects by reference, strings by value); on the first render, and after a
  change, the callback runs.
\<close>

definition useMemo ::
  "('d \<times> nat) option \<Rightarrow> 'd \<Rightarrow> (heap \<Rightarrow> nat \<times> heap) \<Rightarrow> heap \<Rightarrow> (nat \<times> ('d \<times> nat) option) \<times> heap"
where
  "useMemo cache deps compute h =
     (case cache of
        Some (d, v) \<Rightarrow>
          if d = deps then ((v, cache), h)
          else (let (v', h') = compute h in ((v', Some (deps, v')), h'))
      | None \<Rightarrow> (let (v', h') = compute h in ((v', Some (deps, v')), h')))"

text \<open>
  A memo cell is stale for given dependencies when it is empty or holds other dependencies:
  then \<open>useMemo\<close> runs the callback.
\<close>

definition stale :: "('d \<times> nat) option \<Rightarrow> 'd \<Rightarrow> bool" where
  "stale cache deps = (case cache of None \<Rightarrow> True | Some (d, v) \<Rightarrow> d \<noteq> deps)"

text \<open>
  The results of the two hooks (lines 59-60), the component's own state (lines 61-62) and
  the two memo cells. \<open>gameMetadata\<close> is only a dependency; it is known by its reference.
\<close>

record library =
  games :: nat
  loading :: bool
  error :: "string option"

record unifideck =
  gameMetadata :: nat
  getStoreForApp :: "int \<Rightarrow> string option"

record viewState =
  storeFilter :: string
  searchQuery :: string
  enhancedMemo :: "((nat \<times> nat) \<times> nat) option"
  filteredMemo :: "((nat \<times> LibraryFilter \<times> string \<times> string) \<times> nat) option"

definition initialState :: viewState where
  "initialState =
     \<lparr>storeFilter = ''all'', searchQuery = [], enhancedMemo = None, filteredMemo = None\<rparr>"

text \<open>
  One render: the console line of 58, the two memo hooks in their order, then the test of
  \<^verbatim>\<open>error\<close> at line 129, which comes after both hooks.
\<close>

definition UnifiedLibraryViewInner ::
  "(string \<Rightarrow> string \<Rightarrow> int) \<Rightarrow> LibraryFilter \<Rightarrow> library \<Rightarrow> unifideck \<Rightarrow> viewState \<Rightarrow> heap
     \<Rightarrow> view \<times> viewState \<times> heap"
where
  "UnifiedLibraryViewInner lc filt lib uni st h =
     (let h0 = consoleLog (LogRender filt) h;
          ((enhanced, m1), h1) =
            useMemo (enhancedMemo st) (games lib, gameMetadata uni)
              (enhancedGamesHeap (getStoreForApp uni) (games lib)) h0;
          ((filtered, m2), h2) =
            useMemo (filteredMemo st) (enhanced, filt, storeFilter st, searchQuery st)
              (filteredGamesHeap lc enhanced filt (storeFilter st) (searchQuery st)) h1;
          st' = st\<lparr>enhancedMemo := m1, filteredMemo := m2\<rparr>
      in if truthy (error lib)
         then (ErrorField (the (error lib)), st', h2)
         else (LibraryPanel (getFilterTitle filt) (storeFilter st) (searchQuery st)
                 filtered (loading lib), st', h2))"

subsection \<open>Sample data\<close>

text \<open>
  The two entries and the attribution of the end-to-end scenario, an attribution that holds
  an empty tag, and the entries of the search and sort scenarios.
\<close>

definition hades :: game where
  "hades = \<lparr>appId = 1, title = ''Hades'', isInstalled = True, deckVerified = ''verified'',
     store = Some ''unknown''\<rparr>"

definition control :: game where
  "control = \<lparr>appId = 2, title = ''Control'', isInstalled = False,
     deckVerified = ''unsupported'', store = Some ''unknown''\<rparr>"

definition attribution :: "int \<Rightarrow> string option" where
  "attribution i = (if i = 1 then Some ''epic'' else None)"

definition emptyTag :: "int \<Rightarrow> string option" where
  "emptyTag i = (if i = 1 then Some [] else None)"

definition hollowKnight :: game where
  "hollowKnight = \<lparr>appId = 3, title = ''Hollow Knight'', isInstalled = True,
     deckVerified = ''playable'', store = Some ''steam''\<rparr>"

definition celeste :: game where
  "celeste = \<lparr>appId = 4, title = ''Celeste'', isInstalled = False,
     deckVerified = ''verified'', store = Some ''gog''\<rparr>"

definition titled :: "int \<Rightarrow> string \<Rightarrow> game" where
  "titled i t = \<lparr>appId = i, title = t, isInstalled = False, deckVerified = ''unrated'',
     store = Some ''steam''\<rparr>"

text \<open>
  Two heaps that hold the same two entries at different places, with different consoles, the
  run of both functions on each, and a library hook that reports an error.
\<close>

definition sampleHeap :: heap where
  "sampleHeap = \<lparr>objects = [hades, control], arrays = [[0, 1]], console = []\<rparr>"

definition otherHeap :: heap where
  "otherHeap = \<lparr>objects = [control, hollowKnight, hades], arrays = [[1], [2, 0]],
     console = [LogRender Installed]\<rparr>"

definition sampleRun :: "nat \<times> heap" where
  "sampleRun =
     (let (e, h1) = enhancedGamesHeap attribution 0 sampleHeap
      in filteredGamesHeap caseFoldCompare e All ''all'' [] h1)"

definition otherRun :: "nat \<times> heap" where
  "otherRun =
     (let (e, h1) = enhancedGamesHeap attribution 1 otherHeap
      in filteredGamesHeap caseFoldCompare e All ''all'' [] h1)"

definition failedLibrary :: library where
  "failedLibrary = \<lparr>games = 0, loading = False, error = Some ''timeout''\<rparr>"

definition sampleUnifideck :: unifideck where
  "sampleUnifideck = \<lparr>gameMetadata = 7, getStoreForApp = attribution\<rparr>"

text \<open>
  Three renders in a row while the hook reports the error: the first one, one after the
  \<^verbatim>\<open>filter\<close> property has changed, and one more with nothing changed.
\<close>

definition firstRender :: "view \<times> viewState \<times> heap" where
  "firstRender =
     UnifiedLibraryViewInner caseFoldCompare All failedLibrary sampleUnifideck initialState
       sampleHeap"

definition secondRender :: "view \<times> viewState \<times> heap" where
  "secondRender =
     UnifiedLibraryViewInner caseFoldCompare Installed failedLibrary sampleUnifideck
       (fst (snd firstRender)) (snd (snd firstRender))"

definition thirdRender :: "view \<times> viewState \<times> heap" where
  "thirdRender =
     UnifiedLibraryViewInner caseFoldCompare Installed failedLibrary sampleUnifideck
       (fst (snd secondRender)) (snd (snd secondRender))"

section \<open>Properties of the enhancer\<close>

lemma enhance_truthy:
  "truthy (look (appId g)) \<Longrightarrow> enhance look g = g\<lparr>store := look (appId g)\<rparr>"
  by (simp add: enhance_def)

lemma enhance_falsy: "\<not> truthy (look (appId g)) \<Longrightarrow> enhance look g = g"
  by (simp add: enhance_def)

lemma length_enhancedGames: "length (enhancedGames look gs) = length gs"
  by (simp add: enhancedGames_def)

lemma nth_enhancedGames:
  "i < length gs \<Longrightarrow> enhancedGames look gs ! i = enhance look (gs ! i)"
  by (simp add: enhancedGames_def)

lemma enhance_restore: "(enhance look g)\<lparr>store := store g\<rparr> = g"
  by (simp add: enhance_def Let_def)

text \<open>
  C3. For every entry whose identifier is found in the attribution lookup, the enhancer
  returns that entry with its store tag replaced by the tag found, and the identifier, the
  title, the installed flag and the rating unchanged; for every entry whose identifier is not
  found, it returns the entry unchanged. The tag found is one of \<open>StoreType\<close>; the
  replacement takes place for any tag that is not empty.
\<close>

theorem enhancer_override:
  assumes "i < length gs"
  shows "(\<forall>s. look (appId (gs ! i)) = Some s \<and> s \<in> StoreType \<longrightarrow>
            enhancedGames look gs ! i = (gs ! i)\<lparr>store := Some s\<rparr>) \<and>
         (\<forall>s. look (appId (gs ! i)) = Some s \<and> s \<noteq> [] \<longrightarrow>
            enhancedGames look gs ! i = (gs ! i)\<lparr>store := Some s\<rparr>) \<and>
         (look (appId (gs ! i)) = None \<longrightarrow> enhancedGames look gs ! i = gs ! i) \<and>
         appId (enhancedGames look gs ! i) = appId (gs ! i) \<and>
         title (enhancedGames look gs ! i) = title (gs ! i) \<and>
         isInstalled (enhancedGames look gs ! i) = isInstalled (gs ! i) \<and>
         deckVerified (enhancedGames look gs ! i) = deckVerified (gs ! i)"
proof -
  have e: "enhancedGames look gs ! i = enhance look (gs ! i)"
    using assms by (rule nth_enhancedGames)
  have t: "s \<noteq> []" if "s \<in> StoreType" for s
    using that by (auto simp: StoreType_def)
  have a: "enhance look (gs ! i) = (gs ! i)\<lparr>store := Some s\<rparr>"
    if "look (appId (gs ! i)) = Some s" "s \<noteq> []" for s
    using that by (simp add: enhance_def Let_def truthy_def)
  have b: "enhance look (gs ! i) = gs ! i" if "look (appId (gs ! i)) = None"
    using that by (simp add: enhance_def Let_def truthy_def)
  have c: "appId (enhance look (gs ! i)) = appId (gs ! i)"
    "title (enhance look (gs ! i)) = title (gs ! i)"
    "isInstalled (enhance look (gs ! i)) = isInstalled (gs ! i)"
    "deckVerified (enhance look (gs ! i)) = deckVerified (gs ! i)"
    by (simp_all add: enhance_def Let_def)
  from a b c t show ?thesis
    unfolding e by blast
qed

theorem enhancer_override_witness:
  "(0::nat) < length [hades, control] \<and>
   attribution (appId ([hades, control] ! 0)) = Some ''epic'' \<and> ''epic'' \<in> StoreType \<and>
   enhancedGames attribution [hades, control] ! 0 = hades\<lparr>store := Some ''epic''\<rparr> \<and>
   attribution (appId ([hades, control] ! 1)) = None \<and>
   enhancedGames attribution [hades, control] ! 1 = control"
  using enhancer_override [of 0 "[hades, control]" attribution]
    enhancer_override [of 1 "[hades, control]" attribution]
  by (simp add: attribution_def hades_def control_def StoreType_def)

text \<open>
  C4. The output of the enhancer has the length of its input, and its i-th entry is the
  enhanced i-th input entry, which is that entry up to the store tag: nothing is duplicated,
  dropped or reordered.
\<close>

theorem enhancer_one_to_one:
  "length (enhancedGames look gs) = length gs \<and>
   (\<forall>i < length gs.
      enhancedGames look gs ! i = enhance look (gs ! i) \<and>
      (enhancedGames look gs ! i)\<lparr>store := store (gs ! i)\<rparr> = gs ! i)"
  by (simp add: length_enhancedGames nth_enhancedGames enhance_restore)

theorem enhancer_one_to_one_witness:
  "length (enhancedGames attribution [hades, control]) = 2 \<and>
   (1::nat) < length [hades, control] \<and>
   enhancedGames attribution [hades, control] ! 1 = enhance attribution control \<and>
   (enhancedGames attribution [hades, control] ! 0)\<lparr>store := store hades\<rparr> = hades"
  using enhancer_one_to_one [of attribution "[hades, control]"]
  by (simp add: enhancedGames_def enhance_def attribution_def hades_def control_def truthy_def)

text \<open>
  C10. When the lookup yields a falsy value for an entry's identifier (the empty tag, or
  nothing), the enhancer returns the entry unchanged; an entry is changed only when the
  looked-up tag is truthy, and then its store tag is the tag looked up.
\<close>

theorem falsy_lookup_passes_through:
  assumes "i < length gs"
  shows "(look (appId (gs ! i)) = Some [] \<or> look (appId (gs ! i)) = None \<longrightarrow>
            enhancedGames look gs ! i = gs ! i) \<and>
         (enhancedGames look gs ! i \<noteq> gs ! i \<longrightarrow>
            truthy (look (appId (gs ! i))) \<and>
            store (enhancedGames look gs ! i) = look (appId (gs ! i)))"
proof -
  have e: "enhancedGames look gs ! i = enhance look (gs ! i)"
    using assms by (rule nth_enhancedGames)
  show ?thesis
    unfolding e by (auto simp: enhance_def Let_def truthy_def)
qed

theorem falsy_lookup_passes_through_witness:
  "(0::nat) < length [hades] \<and> emptyTag (appId ([hades] ! 0)) = Some [] \<and>
   enhancedGames emptyTag [hades] ! 0 = hades"
  using falsy_lookup_passes_through [of 0 "[hades]" emptyTag]
  by (simp add: emptyTag_def hades_def)

section \<open>Strings and sorting\<close>

lemma str_includes_iff: "str_includes s q \<longleftrightarrow> (\<exists>ps ss. s = ps @ q @ ss)"
proof (induction s)
  case Nil
  then show ?case by auto
next
  case (Cons c cs)
  show ?case
  proof
    assume "str_includes (c # cs) q"
    then consider "prefix q (c # cs)" | "str_includes cs q" by auto
    then show "\<exists>ps ss. c # cs = ps @ q @ ss"
    proof cases
      case 1
      then obtain ss where "c # cs = q @ ss" by (auto simp: prefix_def)
      then have "c # cs = [] @ q @ ss" by simp
      then show ?thesis by blast
    next
      case 2
      with Cons.IH obtain ps ss where "cs = ps @ q @ ss" by blast
      then have "c # cs = (c # ps) @ q @ ss" by simp
      then show ?thesis by blast
    qed
  next
    assume "\<exists>ps ss. c # cs = ps @ q @ ss"
    then obtain ps ss where e: "c # cs = ps @ q @ ss" by blast
    show "str_includes (c # cs) q"
    proof (cases ps)
      case Nil
      with e have "prefix q (c # cs)" by (simp add: prefix_def)
      then show ?thesis by simp
    next
      case (Cons p ps')
      with e have "cs = ps' @ q @ ss" by simp
      with Cons.IH have "str_includes cs q" by blast
      then show ?thesis by simp
    qed
  qed
qed

lemma mset_insertBy: "mset (insertBy cmp x ys) = add_mset x (mset ys)"
  by (induction ys) auto

lemma mset_sortBy: "mset (sortBy cmp xs) = mset xs"
  by (induction xs) (auto simp: sortBy_def mset_insertBy)

lemma set_sortBy: "set (sortBy cmp xs) = set xs"
  using mset_sortBy [of cmp xs] by (metis set_mset_mset)

lemma sortBy_Cons: "sortBy cmp (x # xs) = insertBy cmp x (sortBy cmp xs)"
  by (simp add: sortBy_def)

lemma sortBy_Nil: "sortBy cmp [] = []"
  by (simp add: sortBy_def)

lemma set_insertBy: "set (insertBy cmp x ys) = insert x (set ys)"
  by (induction ys) auto

lemma sorted_insertBy:
  assumes tot: "\<And>a b. cmp a b \<le> 0 \<or> cmp b a \<le> 0"
    and trans: "\<And>a b c. cmp a b \<le> 0 \<Longrightarrow> cmp b c \<le> 0 \<Longrightarrow> cmp a c \<le> 0"
  shows "sorted_wrt (\<lambda>a b. cmp a b \<le> 0) ys \<Longrightarrow> sorted_wrt (\<lambda>a b. cmp a b \<le> 0) (insertBy cmp x ys)"
proof (induction ys)
  case Nil
  then show ?case by simp
next
  case (Cons y ys)
  show ?case
  proof (cases "cmp x y \<le> 0")
    case True
    with Cons.prems trans show ?thesis by auto
  next
    case False
    with tot have "cmp y x \<le> 0" by blast
    with False Cons show ?thesis by (auto simp: set_insertBy)
  qed
qed

lemma sorted_sortBy:
  assumes tot: "\<And>a b. cmp a b \<le> 0 \<or> cmp b a \<le> 0"
    and trans: "\<And>a b c. cmp a b \<le> 0 \<Longrightarrow> cmp b c \<le> 0 \<Longrightarrow> cmp a c \<le> 0"
  shows "sorted_wrt (\<lambda>a b. cmp a b \<le> 0) (sortBy cmp xs)"
proof (induction xs)
  case Nil
  then show ?case by (simp add: sortBy_Nil)
next
  case (Cons x xs)
  have "sorted_wrt (\<lambda>a b. cmp a b \<le> 0) (insertBy cmp x (sortBy cmp xs))"
    using tot trans Cons.IH by (rule sorted_insertBy)
  then show ?case by (simp add: sortBy_Cons)
qed

lemma sortBy_sorted_id:
  "sorted_wrt (\<lambda>a b. cmp a b \<le> 0) xs \<Longrightarrow> sortBy cmp xs = xs"
proof (induction xs)
  case Nil
  then show ?case by (simp add: sortBy_Nil)
next
  case (Cons x xs)
  then have "sortBy cmp xs = xs" by simp
  moreover from Cons.prems have "insertBy cmp x xs = x # xs" by (cases xs) auto
  ultimately show ?case by (simp add: sortBy_Cons)
qed

lemma filter_insertBy:
  assumes "\<And>y. P x \<Longrightarrow> P y \<Longrightarrow> cmp x y \<le> 0"
  shows "filter P (insertBy cmp x ys) = (if P x then x # filter P ys else filter P ys)"
  using assms by (induction ys) auto

lemma filter_sortBy:
  assumes "\<And>x y. P x \<Longrightarrow> P y \<Longrightarrow> cmp x y \<le> 0"
  shows "filter P (sortBy cmp xs) = filter P xs"
proof (induction xs)
  case Nil
  then show ?case by (simp add: sortBy_Nil)
next
  case (Cons x xs)
  have "filter P (insertBy cmp x (sortBy cmp xs)) =
        (if P x then x # filter P (sortBy cmp xs) else filter P (sortBy cmp xs))"
    by (rule filter_insertBy) (use assms in blast)
  with Cons show ?case by (simp add: sortBy_Cons)
qed

lemma consistent_caseFoldCompare: "consistent caseFoldCompare"
  unfolding consistent_def caseFoldCompare_def Let_def
  by (auto split: if_splits)




lemma consistent_total: "consistent lc \<Longrightarrow> lc a b \<le> 0 \<or> lc b a \<le> 0"
proof -
  assume "consistent lc"
  then have "(lc b a < 0) = (0 < lc a b)" unfolding consistent_def by blast
  then show ?thesis by linarith
qed

lemma consistent_trans: "consistent lc \<Longrightarrow> lc a b \<le> 0 \<Longrightarrow> lc b c \<le> 0 \<Longrightarrow> lc a c \<le> 0"
  unfolding consistent_def by blast

lemma consistent_refl: "consistent lc \<Longrightarrow> lc a a \<le> 0"
  using consistent_total [of lc a a] by simp

lemma set_applyMainFilter: "set (applyMainFilter f xs) \<subseteq> set xs"
  by (cases f) auto

lemma set_applyStoreFilter: "set (applyStoreFilter sf xs) \<subseteq> set xs"
  by (auto simp: applyStoreFilter_def)

lemma set_applySearchFilter: "set (applySearchFilter q xs) \<subseteq> set xs"
  by (auto simp: applySearchFilter_def Let_def)

lemma applyMainFilter_fixed:
  "set ys \<subseteq> set (applyMainFilter f xs) \<Longrightarrow> applyMainFilter f ys = ys"
  by (cases f) (auto simp: filter_id_conv)

lemma applyStoreFilter_fixed:
  "set ys \<subseteq> set (applyStoreFilter sf xs) \<Longrightarrow> applyStoreFilter sf ys = ys"
  by (auto simp: applyStoreFilter_def filter_id_conv)

lemma applySearchFilter_fixed:
  "set ys \<subseteq> set (applySearchFilter q xs) \<Longrightarrow> applySearchFilter q ys = ys"
  by (auto simp: applySearchFilter_def Let_def filter_id_conv)

lemma set_sortByTitle: "set (sortByTitle lc xs) = set xs"
  by (simp add: sortByTitle_def set_sortBy)

lemma mset_sortByTitle: "mset (sortByTitle lc xs) = mset xs"
  by (simp add: sortByTitle_def mset_sortBy)

lemma sorted_sortByTitle:
  assumes "consistent lc"
  shows "sorted_wrt (\<lambda>a b. lc (title a) (title b) \<le> 0) (sortByTitle lc xs)"
  unfolding sortByTitle_def
proof (rule sorted_sortBy)
  fix a b :: game
  show "lc (title a) (title b) \<le> 0 \<or> lc (title b) (title a) \<le> 0"
    using assms by (rule consistent_total)
next
  fix a b c :: game
  assume "lc (title a) (title b) \<le> 0" "lc (title b) (title c) \<le> 0"
  with assms show "lc (title a) (title c) \<le> 0" by (rule consistent_trans)
qed

lemma sortByTitle_fixed:
  "sorted_wrt (\<lambda>a b. lc (title a) (title b) \<le> 0) xs \<Longrightarrow> sortByTitle lc xs = xs"
  unfolding sortByTitle_def by (rule sortBy_sorted_id)

lemma sortByTitle_ties:
  assumes "consistent lc"
  shows "filter (\<lambda>g. lc (title g) t \<le> 0 \<and> lc t (title g) \<le> 0) (sortByTitle lc xs) =
         filter (\<lambda>g. lc (title g) t \<le> 0 \<and> lc t (title g) \<le> 0) xs"
  unfolding sortByTitle_def
proof (rule filter_sortBy)
  fix x y :: game
  assume "lc (title x) t \<le> 0 \<and> lc t (title x) \<le> 0" "lc (title y) t \<le> 0 \<and> lc t (title y) \<le> 0"
  then have "lc (title x) t \<le> 0" "lc t (title y) \<le> 0" by simp_all
  with assms show "lc (title x) (title y) \<le> 0" by (rule consistent_trans)
qed

lemma sortByTitle_equal_titles:
  assumes "consistent lc"
  shows "filter (\<lambda>g. title g = t) (sortByTitle lc xs) = filter (\<lambda>g. title g = t) xs"
  unfolding sortByTitle_def
proof (rule filter_sortBy)
  fix x y :: game
  assume "title x = t" "title y = t"
  with consistent_refl [OF assms, of t] show "lc (title x) (title y) \<le> 0" by simp
qed

section \<open>Properties of the filter and sort pipeline\<close>

text \<open>
  C2. For a collation \<open>lc\<close>, every entry sequence and every filter state, the pipeline applied
  to its own output with the same state returns that output.
\<close>

theorem pipeline_idempotent:
  assumes "consistent lc"
  shows "filteredGames lc (filteredGames lc E f sf q) f sf q = filteredGames lc E f sf q"
proof -
  define m where "m = applyMainFilter f E"
  define s where "s = applyStoreFilter sf m"
  define p where "p = applySearchFilter q s"
  define out where "out = sortByTitle lc p"
  have out: "filteredGames lc E f sf q = out"
    by (simp add: filteredGames_def out_def p_def s_def m_def)
  have sub: "set out \<subseteq> set p" "set p \<subseteq> set s" "set s \<subseteq> set m"
    using set_applySearchFilter [of q s] set_applyStoreFilter [of sf m]
    by (simp_all add: out_def set_sortByTitle p_def s_def)
  have 1: "applyMainFilter f out = out"
    using sub by (intro applyMainFilter_fixed [of out f E]) (auto simp: m_def)
  have 2: "applyStoreFilter sf out = out"
    using sub by (intro applyStoreFilter_fixed [of out sf m]) (auto simp: s_def)
  have 3: "applySearchFilter q out = out"
    using sub by (intro applySearchFilter_fixed [of out q s]) (auto simp: p_def)
  have 4: "sortByTitle lc out = out"
    unfolding out_def by (intro sortByTitle_fixed sorted_sortByTitle assms)
  have "filteredGames lc out f sf q = out"
    by (simp add: filteredGames_def 1 2 3 4)
  then show ?thesis by (simp add: out)
qed

theorem pipeline_idempotent_witness:
  "consistent caseFoldCompare \<and>
   filteredGames caseFoldCompare [titled 1 ''Zelda'', hollowKnight, celeste] GreatOnDeck ''all'' ''E''
     = [celeste] \<and>
   filteredGames caseFoldCompare [celeste] GreatOnDeck ''all'' ''E'' = [celeste]"
proof -
  have e: "filteredGames caseFoldCompare [titled 1 ''Zelda'', hollowKnight, celeste] GreatOnDeck ''all'' ''E''
     = [celeste]"
    by code_simp
  show ?thesis
    using pipeline_idempotent [OF consistent_caseFoldCompare,
        of "[titled 1 ''Zelda'', hollowKnight, celeste]" GreatOnDeck "''all''" "''E''"]
    by (simp add: e consistent_caseFoldCompare)
qed

text \<open>
  C5. The main filter keeps every entry for \<open>All\<close>, exactly the installed entries for
  \<open>Installed\<close> and exactly the entries rated playable or verified for \<open>GreatOnDeck\<close>; the
  pipeline with such a filter is the pipeline with \<open>All\<close> on the entries kept, and every entry
  of its output is installed, or rated playable or verified.
\<close>

theorem category_filter:
  "applyMainFilter All E = E \<and>
   applyMainFilter Installed E = filter isInstalled E \<and>
   applyMainFilter GreatOnDeck E =
     filter (\<lambda>g. deckVerified g = ''playable'' \<or> deckVerified g = ''verified'') E \<and>
   filteredGames lc E Installed sf q =
     filteredGames lc (filter isInstalled E) All sf q \<and>
   filteredGames lc E GreatOnDeck sf q =
     filteredGames lc
       (filter (\<lambda>g. deckVerified g = ''playable'' \<or> deckVerified g = ''verified'') E) All sf q \<and>
   (\<forall>g \<in> set (filteredGames lc E Installed sf q). isInstalled g) \<and>
   (\<forall>g \<in> set (filteredGames lc E GreatOnDeck sf q).
      deckVerified g = ''playable'' \<or> deckVerified g = ''verified'')"
proof -
  have a: "applyMainFilter All E = E" by simp
  have b: "applyMainFilter Installed E = filter isInstalled E" by simp
  have c: "applyMainFilter GreatOnDeck E =
     filter (\<lambda>g. deckVerified g = ''playable'' \<or> deckVerified g = ''verified'') E"
    unfolding applyMainFilter.simps by (rule filter_cong) auto
  have sub: "set (filteredGames lc E f sf q) \<subseteq> set (applyMainFilter f E)" for f
    unfolding filteredGames_def set_sortByTitle
    using set_applySearchFilter set_applyStoreFilter by blast
  have d: "filteredGames lc E Installed sf q =
     filteredGames lc (filter isInstalled E) All sf q"
    unfolding filteredGames_def b a applyMainFilter.simps(3) by (rule refl)
  have e: "filteredGames lc E GreatOnDeck sf q =
     filteredGames lc
       (filter (\<lambda>g. deckVerified g = ''playable'' \<or> deckVerified g = ''verified'') E) All sf q"
    unfolding filteredGames_def c applyMainFilter.simps(3) by (rule refl)
  have i: "\<forall>g \<in> set (filteredGames lc E Installed sf q). isInstalled g"
    using sub [of Installed] unfolding b by auto
  have k: "\<forall>g \<in> set (filteredGames lc E GreatOnDeck sf q).
      deckVerified g = ''playable'' \<or> deckVerified g = ''verified''"
    using sub [of GreatOnDeck] unfolding c by auto
  from a b c d e i k show ?thesis by (intro conjI)
qed

theorem category_filter_witness:
  "filteredGames caseFoldCompare [hades, control] Installed ''all'' [] = [hades] \<and>
   hades \<in> set (filteredGames caseFoldCompare [hades, control] Installed ''all'' []) \<and>
   isInstalled hades \<and>
   celeste \<in> set (filteredGames caseFoldCompare [hollowKnight, control, celeste] GreatOnDeck ''all'' []) \<and>
   (deckVerified celeste = ''playable'' \<or> deckVerified celeste = ''verified'')"
proof -
  have e1: "filteredGames caseFoldCompare [hades, control] Installed ''all'' [] = [hades]"
    by code_simp
  have e2: "filteredGames caseFoldCompare [hollowKnight, control, celeste] GreatOnDeck ''all'' []
       = [celeste, hollowKnight]"
    by code_simp
  have m1: "hades \<in> set (filteredGames caseFoldCompare [hades, control] Installed ''all'' [])"
    unfolding e1 by simp
  have m2: "celeste \<in>
      set (filteredGames caseFoldCompare [hollowKnight, control, celeste] GreatOnDeck ''all'' [])"
    unfolding e2 by simp
  note c1 = category_filter [of "[hades, control]" caseFoldCompare "''all''" "[]"]
  note c2 = category_filter [of "[hollowKnight, control, celeste]" caseFoldCompare "''all''" "[]"]
  from c1 have "\<forall>g \<in> set (filteredGames caseFoldCompare [hades, control] Installed ''all'' []).
      isInstalled g"
    by (elim conjE)
  from this m1 have r1: "isInstalled hades" by (rule bspec)
  from c2 have "\<forall>g \<in> set (filteredGames caseFoldCompare [hollowKnight, control, celeste]
      GreatOnDeck ''all'' []). deckVerified g = ''playable'' \<or> deckVerified g = ''verified''"
    by (elim conjE)
  from this m2 have r2: "deckVerified celeste = ''playable'' \<or> deckVerified celeste = ''verified''"
    by (rule bspec)
  from e1 m1 r1 m2 r2 show ?thesis by (intro conjI)
qed

text \<open>
  C6. With the store filter \<^verbatim>\<open>"all"\<close> the store step keeps every entry; with any other
  store it keeps exactly the entries whose store tag, as the enhancer left it, is that store,
  and every entry of the pipeline's output has that tag.
\<close>

theorem store_filter:
  "applyStoreFilter ''all'' E = E \<and>
   filteredGames lc E f ''all'' q = sortByTitle lc (applySearchFilter q (applyMainFilter f E)) \<and>
   (sf \<noteq> ''all'' \<longrightarrow>
      applyStoreFilter sf E = filter (\<lambda>g. store g = Some sf) E \<and>
      filteredGames lc E f sf q =
        sortByTitle lc (applySearchFilter q
          (filter (\<lambda>g. store g = Some sf) (applyMainFilter f E))) \<and>
      (\<forall>g \<in> set (filteredGames lc E f sf q). store g = Some sf))"
proof -
  have "set (filteredGames lc E f sf q) \<subseteq> set (applyStoreFilter sf (applyMainFilter f E))"
    unfolding filteredGames_def set_sortByTitle by (rule set_applySearchFilter)
  then show ?thesis
    by (auto simp: filteredGames_def applyStoreFilter_def)
qed

theorem store_filter_witness:
  "''epic'' \<noteq> ''all'' \<and>
   filteredGames caseFoldCompare (enhancedGames attribution [hades, control]) All ''epic'' []
     = [hades\<lparr>store := Some ''epic''\<rparr>] \<and>
   hades\<lparr>store := Some ''epic''\<rparr> \<in>
     set (filteredGames caseFoldCompare (enhancedGames attribution [hades, control]) All ''epic'' []) \<and>
   store (hades\<lparr>store := Some ''epic''\<rparr>) = Some ''epic''"
proof -
  have e: "filteredGames caseFoldCompare (enhancedGames attribution [hades, control]) All ''epic'' []
     = [hades\<lparr>store := Some ''epic''\<rparr>]"
    by code_simp
  have n: "''epic'' \<noteq> ''all''" by simp
  have m: "hades\<lparr>store := Some ''epic''\<rparr> \<in>
     set (filteredGames caseFoldCompare (enhancedGames attribution [hades, control]) All ''epic'' [])"
    unfolding e by simp
  from store_filter [of "enhancedGames attribution [hades, control]" caseFoldCompare All "[]" "''epic''"]
  have "''epic'' \<noteq> ''all'' \<longrightarrow>
      applyStoreFilter ''epic'' (enhancedGames attribution [hades, control]) =
        filter (\<lambda>g. store g = Some ''epic'') (enhancedGames attribution [hades, control]) \<and>
      filteredGames caseFoldCompare (enhancedGames attribution [hades, control]) All ''epic'' [] =
        sortByTitle caseFoldCompare (applySearchFilter []
          (filter (\<lambda>g. store g = Some ''epic'')
            (applyMainFilter All (enhancedGames attribution [hades, control])))) \<and>
      (\<forall>g \<in> set (filteredGames caseFoldCompare (enhancedGames attribution [hades, control])
           All ''epic'' []). store g = Some ''epic'')"
    by (elim conjE)
  from this [rule_format, OF n]
  have "\<forall>g \<in> set (filteredGames caseFoldCompare (enhancedGames attribution [hades, control])
           All ''epic'' []). store g = Some ''epic''"
    by (elim conjE)
  from this m have "store (hades\<lparr>store := Some ''epic''\<rparr>) = Some ''epic''" by (rule bspec)
  with n e m show ?thesis by (intro conjI)
qed

text \<open>
  C7. The last step of the pipeline sorts the entries that passed the filters: for a
  collation \<open>lc\<close> the output ascends by title, holds the same entries, and entries with equal
  titles, and entries whose titles the collation does not tell apart, keep their relative
  order.
\<close>

theorem sort_stage:
  assumes "consistent lc"
  shows "filteredGames lc E f sf q =
           sortByTitle lc (applySearchFilter q (applyStoreFilter sf (applyMainFilter f E))) \<and>
         sorted_wrt (\<lambda>a b. lc (title a) (title b) \<le> 0) (sortByTitle lc xs) \<and>
         mset (sortByTitle lc xs) = mset xs \<and>
         (\<forall>t. filter (\<lambda>g. title g = t) (sortByTitle lc xs) = filter (\<lambda>g. title g = t) xs) \<and>
         (\<forall>t. filter (\<lambda>g. lc (title g) t \<le> 0 \<and> lc t (title g) \<le> 0) (sortByTitle lc xs) =
              filter (\<lambda>g. lc (title g) t \<le> 0 \<and> lc t (title g) \<le> 0) xs)"
  using assms
  by (simp add: filteredGames_def sorted_sortByTitle mset_sortByTitle sortByTitle_equal_titles
      sortByTitle_ties)

theorem sort_stage_witness:
  "consistent caseFoldCompare \<and>
   filteredGames caseFoldCompare
     [titled 1 ''Zelda'', titled 2 ''apple'', titled 3 ''Banana'', titled 4 ''Zelda'']
     All ''all'' [] =
     [titled 2 ''apple'', titled 3 ''Banana'', titled 1 ''Zelda'', titled 4 ''Zelda''] \<and>
   filter (\<lambda>g. title g = ''Zelda'')
     (sortByTitle caseFoldCompare
       [titled 1 ''Zelda'', titled 2 ''apple'', titled 3 ''Banana'', titled 4 ''Zelda'']) =
     [titled 1 ''Zelda'', titled 4 ''Zelda'']"
proof -
  let ?E = "[titled 1 ''Zelda'', titled 2 ''apple'', titled 3 ''Banana'', titled 4 ''Zelda'']"
  have e: "filteredGames caseFoldCompare ?E All ''all'' [] =
     [titled 2 ''apple'', titled 3 ''Banana'', titled 1 ''Zelda'', titled 4 ''Zelda'']"
    by code_simp
  have t: "filter (\<lambda>g. title g = ''Zelda'') ?E = [titled 1 ''Zelda'', titled 4 ''Zelda'']"
    by code_simp
  from sort_stage [OF consistent_caseFoldCompare, of ?E All "''all''" "[]" ?E]
  have "\<forall>t. filter (\<lambda>g. title g = t) (sortByTitle caseFoldCompare ?E) =
        filter (\<lambda>g. title g = t) ?E"
    by (elim conjE)
  then have s: "filter (\<lambda>g. title g = ''Zelda'') (sortByTitle caseFoldCompare ?E) =
        filter (\<lambda>g. title g = ''Zelda'') ?E"
    by (rule spec)
  have "filter (\<lambda>g. title g = ''Zelda'') (sortByTitle caseFoldCompare ?E) =
        [titled 1 ''Zelda'', titled 4 ''Zelda'']"
    using s t by (rule trans)
  with e consistent_caseFoldCompare show ?thesis by (intro conjI)
qed

section \<open>The search step as the code has it\<close>

text \<open>
  A query that is empty or all white space leaves the entries as they are: the search step
  is the identity, and the pipeline is the sort of the entries the two other filters keep.
\<close>

theorem search_blank:
  assumes "trim q = []"
  shows "applySearchFilter q E = E \<and>
         filteredGames lc E f sf q = sortByTitle lc (applyStoreFilter sf (applyMainFilter f E))"
  using assms by (simp add: applySearchFilter_def filteredGames_def)

theorem search_blank_witness:
  "trim [CHR '' '', CHR 0x09, CHR '' ''] = [] \<and>
   applySearchFilter [CHR '' '', CHR 0x09, CHR '' ''] [hollowKnight, celeste] =
     [hollowKnight, celeste]"
proof -
  have t: "trim [CHR '' '', CHR 0x09, CHR '' ''] = []" by code_simp
  from search_blank [OF t, of "[hollowKnight, celeste]"]
  have "applySearchFilter [CHR '' '', CHR 0x09, CHR '' ''] [hollowKnight, celeste] =
     [hollowKnight, celeste]"
    by (rule conjunct1)
  with t show ?thesis by (intro conjI)
qed

text \<open>
  A query with anything but white space in it keeps exactly the entries whose lower-cased
  title contains the lower-cased query as it was typed, the white space at its ends
  included; when the query has none, that is the trimmed query.
\<close>

theorem search_as_typed:
  assumes "trim q \<noteq> []"
  shows "applySearchFilter q E =
           filter (\<lambda>g. \<exists>ps ss. toLowerCase (title g) = ps @ toLowerCase q @ ss) E \<and>
         (trim q = q \<longrightarrow>
            applySearchFilter q E =
              filter (\<lambda>g. \<exists>ps ss. toLowerCase (title g) = ps @ toLowerCase (trim q) @ ss) E)"
proof -
  have a: "applySearchFilter q E =
           filter (\<lambda>g. \<exists>ps ss. toLowerCase (title g) = ps @ toLowerCase q @ ss) E"
    using assms by (simp add: applySearchFilter_def str_includes_iff)
  have b: "applySearchFilter q E =
           filter (\<lambda>g. \<exists>ps ss. toLowerCase (title g) = ps @ toLowerCase (trim q) @ ss) E"
    if t: "trim q = q"
    unfolding t by (rule a)
  from a b show ?thesis by blast
qed

theorem search_as_typed_witness:
  "trim ''low kn'' \<noteq> [] \<and> trim ''low kn'' = ''low kn'' \<and>
   applySearchFilter ''low kn'' [hollowKnight, celeste] = [hollowKnight] \<and>
   filter (\<lambda>g. \<exists>ps ss. toLowerCase (title g) = ps @ toLowerCase (trim ''low kn'') @ ss)
     [hollowKnight, celeste] = [hollowKnight]"
proof -
  have t: "trim ''low kn'' = ''low kn''" by code_simp
  then have n: "trim ''low kn'' \<noteq> []" by simp
  have e: "applySearchFilter ''low kn'' [hollowKnight, celeste] = [hollowKnight]"
    by code_simp
  from search_as_typed [OF n, of "[hollowKnight, celeste]"]
  have "trim ''low kn'' = ''low kn'' \<longrightarrow>
        applySearchFilter ''low kn'' [hollowKnight, celeste] =
          filter (\<lambda>g. \<exists>ps ss. toLowerCase (title g) = ps @ toLowerCase (trim ''low kn'') @ ss)
            [hollowKnight, celeste]"
    by (rule conjunct2)
  from this t have "applySearchFilter ''low kn'' [hollowKnight, celeste] =
      filter (\<lambda>g. \<exists>ps ss. toLowerCase (title g) = ps @ toLowerCase (trim ''low kn'') @ ss)
        [hollowKnight, celeste]"
    by (rule mp)
  with e have "filter (\<lambda>g. \<exists>ps ss. toLowerCase (title g) = ps @ toLowerCase (trim ''low kn'') @ ss)
       [hollowKnight, celeste] = [hollowKnight]"
    by simp
  with n t e show ?thesis by (intro conjI)
qed

text \<open>
  C1. The query \<^verbatim>\<open>" hollow"\<close> trims to \<^verbatim>\<open>"hollow"\<close>, which the lower-cased title of
  \<^verbatim>\<open>"Hollow Knight"\<close> contains, yet the pipeline drops the entry: line 117 lower-cases the
  query as typed, with its leading blank.
\<close>

theorem search_untrimmed_query:
  "trim '' hollow'' = ''hollow'' \<and>
   str_includes (toLowerCase (title hollowKnight)) (toLowerCase (trim '' hollow'')) \<and>
   filteredGames caseFoldCompare [hollowKnight] All ''all'' '' hollow'' = []"
  by code_simp

text \<open>
  The search examples: \<^verbatim>\<open>"Hollow Knight"\<close> is kept for the queries \<^verbatim>\<open>"hollow"\<close>,
  \<^verbatim>\<open>"KNIGHT"\<close> and \<^verbatim>\<open>"low kn"\<close>, and \<^verbatim>\<open>"Celeste"\<close> is dropped for \<^verbatim>\<open>"hollow"\<close>.
\<close>

theorem search_examples:
  "filteredGames caseFoldCompare [hollowKnight, celeste] All ''all'' ''hollow'' = [hollowKnight] \<and>
   filteredGames caseFoldCompare [hollowKnight, celeste] All ''all'' ''KNIGHT'' = [hollowKnight] \<and>
   filteredGames caseFoldCompare [hollowKnight, celeste] All ''all'' ''low kn'' = [hollowKnight] \<and>
   filteredGames caseFoldCompare [celeste] All ''all'' ''hollow'' = []"
  by code_simp

section \<open>The scenarios\<close>

text \<open>
  End to end: the two entries, Hades attributed to epic, the filter \<^verbatim>\<open>"great-on-deck"\<close>, every
  store and no query give the one entry Hades, with the store epic.
\<close>

theorem end_to_end_scenario:
  "filteredGames caseFoldCompare (enhancedGames attribution [hades, control]) GreatOnDeck
     ''all'' [] =
     [\<lparr>appId = 1, title = ''Hades'', isInstalled = True, deckVerified = ''verified'',
        store = Some ''epic''\<rparr>]"
  by code_simp

text \<open>
  The same entries with the filter \<^verbatim>\<open>"installed"\<close> and the store gog: the result is empty.
\<close>

theorem empty_result_scenario:
  "filteredGames caseFoldCompare (enhancedGames attribution [hades, control]) Installed
     ''gog'' [] = []"
  by code_simp

text \<open>
  Titles Zelda, apple, Banana: with the sample collation the pipeline returns apple, Banana,
  Zelda, whatever the store and the installed flag of the entries.
\<close>

theorem sort_scenario:
  "map title (filteredGames caseFoldCompare
     [\<lparr>appId = 1, title = ''Zelda'', isInstalled = True, deckVerified = ''verified'',
         store = Some ''gog''\<rparr>,
      \<lparr>appId = 2, title = ''apple'', isInstalled = False, deckVerified = ''unrated'',
         store = Some ''steam''\<rparr>,
      \<lparr>appId = 3, title = ''Banana'', isInstalled = True, deckVerified = ''playable'',
         store = None\<rparr>]
     All ''all'' []) = [''apple'', ''Banana'', ''Zelda'']"
  by code_simp


section \<open>The functions on the heap\<close>

lemma map_insertBy:
  "map f (insertBy (\<lambda>x y. cmp (f x) (f y)) x ys) = insertBy cmp (f x) (map f ys)"
  by (induction ys) auto

lemma map_sortBy: "map f (sortBy (\<lambda>x y. cmp (f x) (f y)) xs) = sortBy cmp (map f xs)"
  by (induction xs) (simp_all add: sortBy_Nil sortBy_Cons map_insertBy)

lemma tracks_alloc:
  assumes "e < length (arrays h)" "allocArray (arrays h ! e) h = (a, h1)"
  shows "tracks h h1 a (contents h e)"
  using assms by (auto simp: allocArray_def tracks_def contents_def)

lemma tracks_filter:
  assumes "tracks h h1 a xs" "filterArray p a h1 = (a', h2)"
  shows "tracks h h2 a' (filter p xs)"
proof -
  from assms(2) have a': "a' = length (arrays h1)"
    and h2: "h2 = h1\<lparr>arrays := arrays h1 @ [filter (\<lambda>r. p (objects h1 ! r)) (arrays h1 ! a)]\<rparr>"
    by (auto simp: filterArray_def allocArray_def)
  from assms(1) have t: "length (arrays h) \<le> a" "a < length (arrays h1)"
    "take (length (arrays h)) (arrays h1) = arrays h" "objects h1 = objects h"
    "console h1 = console h" "contents h1 a = xs"
    by (simp_all add: tracks_def)
  have "contents h2 a' = map (\<lambda>r. objects h1 ! r) (filter (\<lambda>r. p (objects h1 ! r)) (arrays h1 ! a))"
    by (simp add: contents_def a' h2)
  also have "\<dots> = filter p (contents h1 a)"
    by (simp add: contents_def filter_map comp_def)
  finally have c: "contents h2 a' = filter p xs" by (simp add: t)
  from t c show ?thesis by (simp add: tracks_def a' h2)
qed

lemma tracks_sort:
  assumes "tracks h h1 a xs"
  shows "tracks h (sortArray cmp a h1) a (sortBy cmp xs)"
proof -
  from assms have t: "length (arrays h) \<le> a" "a < length (arrays h1)"
    "take (length (arrays h)) (arrays h1) = arrays h" "objects h1 = objects h"
    "console h1 = console h" "contents h1 a = xs"
    by (simp_all add: tracks_def)
  have "contents (sortArray cmp a h1) a =
        map (\<lambda>r. objects h1 ! r) (sortBy (\<lambda>x y. cmp (objects h1 ! x) (objects h1 ! y)) (arrays h1 ! a))"
    using t(2) by (simp add: contents_def sortArray_def)
  also have "\<dots> = sortBy cmp (contents h1 a)"
    by (simp add: contents_def map_sortBy)
  finally have c: "contents (sortArray cmp a h1) a = sortBy cmp xs" by (simp add: t)
  from t c show ?thesis by (simp add: tracks_def sortArray_def)
qed

lemma filteredGamesHeap_tracks:
  assumes "enhanced < length (arrays h)"
    and "filteredGamesHeap lc enhanced f sf q h = (r, h')"
  shows "tracks h h' r (filteredGames lc (contents h enhanced) f sf q)"
proof -
  obtain a1 h1 where s1: "allocArray (arrays h ! enhanced) h = (a1, h1)" by fastforce
  obtain a2 h2 where s2:
    "(case f of
        Installed \<Rightarrow> filterArray (\<lambda>g. isInstalled g) a1 h1
      | GreatOnDeck \<Rightarrow>
          filterArray (\<lambda>g. deckVerified g = ''verified'' \<or> deckVerified g = ''playable'') a1 h1
      | All \<Rightarrow> (a1, h1)) = (a2, h2)"
    by fastforce
  obtain a3 h3 where s3:
    "(if sf \<noteq> ''all'' then filterArray (\<lambda>g. store g = Some sf) a2 h2 else (a2, h2)) = (a3, h3)"
    by fastforce
  obtain a4 h4 where s4:
    "(if trim q \<noteq> []
      then (let query = toLowerCase q
            in filterArray (\<lambda>g. str_includes (toLowerCase (title g)) query) a3 h3)
      else (a3, h3)) = (a4, h4)"
    by fastforce
  have res: "r = a4" "h' = sortArray (\<lambda>a b. lc (title a) (title b)) a4 h4"
    using assms(2) by (auto simp: filteredGamesHeap_def s1 s2 s3 s4 Let_def)
  have t1: "tracks h h1 a1 (contents h enhanced)"
    using assms(1) s1 by (rule tracks_alloc)
  have t2: "tracks h h2 a2 (applyMainFilter f (contents h enhanced))"
  proof (cases f)
    case All
    with s2 t1 show ?thesis by simp
  next
    case Installed
    with s2 tracks_filter [OF t1] show ?thesis by simp
  next
    case GreatOnDeck
    with s2 tracks_filter [OF t1] show ?thesis by simp
  qed
  have t3: "tracks h h3 a3 (applyStoreFilter sf (applyMainFilter f (contents h enhanced)))"
    using s3 t2 tracks_filter [OF t2]
    by (cases "sf = ''all''") (simp_all add: applyStoreFilter_def)
  have t4: "tracks h h4 a4
      (applySearchFilter q (applyStoreFilter sf (applyMainFilter f (contents h enhanced))))"
    using s4 t3 tracks_filter [OF t3]
    by (cases "trim q = []") (simp_all add: applySearchFilter_def Let_def)
  show ?thesis
    unfolding res filteredGames_def sortByTitle_def
    using t4 by (rule tracks_sort)
qed

lemma prefix_nth: "prefix xs ys \<Longrightarrow> i < length xs \<Longrightarrow> ys ! i = xs ! i"
  by (auto simp: prefix_def nth_append)

lemma enhanceEach_spec:
  assumes "\<forall>r \<in> set rs. r < length (objects h)"
    and "enhanceEach look rs h = (rs', h')"
  shows "map (\<lambda>r. objects h' ! r) rs' = map (enhance look) (map (\<lambda>r. objects h ! r) rs) \<and>
         prefix (objects h) (objects h') \<and> arrays h' = arrays h \<and>
         prefix (console h) (console h') \<and>
         (\<forall>r \<in> set rs'. r < length (objects h'))"
  using assms
proof (induction rs arbitrary: h rs' h')
  case Nil
  then show ?case by simp
next
  case (Cons r rs)
  let ?g = "objects h ! r"
  obtain r1 h1 where step:
    "(if truthy (look (appId ?g)) then allocObject (?g\<lparr>store := look (appId ?g)\<rparr>) h
      else (r, if store ?g = Some ''unknown'' \<or> \<not> truthy (store ?g)
               then consoleLog (LogNoMetadata (appId ?g) (title ?g) (store ?g)) h
               else h)) = (r1, h1)"
    by fastforce
  obtain rs2 h2 where rest: "enhanceEach look rs h1 = (rs2, h2)" by fastforce
  from Cons.prems(2) have res: "rs' = r1 # rs2" "h' = h2"
    by (simp_all add: Let_def step rest)
  from Cons.prems(1) have r: "r < length (objects h)" and rs: "\<forall>x \<in> set rs. x < length (objects h)"
    by simp_all
  have h1: "prefix (objects h) (objects h1)" "arrays h1 = arrays h"
    "prefix (console h) (console h1)" "r1 < length (objects h1)"
    "objects h1 ! r1 = enhance look ?g"
    using step r
    by (auto simp: allocObject_def consoleLog_def enhance_def split: if_splits)
  from h1(1) have len: "length (objects h) \<le> length (objects h1)"
    by (rule prefix_length_le)
  with rs have rs1: "\<forall>x \<in> set rs. x < length (objects h1)" by auto
  from Cons.IH [OF rs1 rest]
  have ih: "map (\<lambda>r. objects h2 ! r) rs2 = map (enhance look) (map (\<lambda>r. objects h1 ! r) rs)"
    "prefix (objects h1) (objects h2)" "arrays h2 = arrays h1"
    "prefix (console h1) (console h2)" "\<forall>r \<in> set rs2. r < length (objects h2)"
    by simp_all
  have same: "map (\<lambda>r. objects h1 ! r) rs = map (\<lambda>r. objects h ! r) rs"
    using rs h1(1) by (auto simp: prefix_nth)
  have first: "objects h2 ! r1 = enhance look (objects h ! r)"
    using ih(2) h1(4) h1(5) by (simp add: prefix_nth)
  have bound: "r1 < length (objects h2)"
    using h1(4) prefix_length_le [OF ih(2)] by simp
  have p1: "prefix (objects h) (objects h2)" using h1(1) ih(2) by (rule prefix_order.trans)
  have p2: "prefix (console h) (console h2)" using h1(3) ih(4) by (rule prefix_order.trans)
  show ?case
    unfolding res using ih(1) ih(3) ih(5) same first bound p1 p2 h1(2) by simp
qed

lemma enhancedGamesHeap_spec:
  assumes "wellFormed h" "ga < length (arrays h)"
    and "enhancedGamesHeap look ga h = (e, h')"
  shows "contents h' e = enhancedGames look (contents h ga)"
    and "e = length (arrays h)" and "length (arrays h') = Suc (length (arrays h))"
    and "take (length (arrays h)) (arrays h') = arrays h"
    and "prefix (objects h) (objects h')" and "prefix (console h) (console h')"
    and "wellFormed h'"
proof -
  obtain refs h1 where s1: "enhanceEach look (arrays h ! ga) h = (refs, h1)" by fastforce
  have valid: "\<forall>r \<in> set (arrays h ! ga). r < length (objects h)"
    using assms(1,2) by (auto simp: wellFormed_def list_all_iff)
  note sp = enhanceEach_spec [OF valid s1]
  from assms(3) have res: "e = length (arrays h1)"
    "objects h' = objects h1" "arrays h' = arrays h1 @ [refs]"
    "prefix (console h1) (console h')"
    by (auto simp: enhancedGamesHeap_def s1 Let_def allocArray_def consoleLog_def)
  have c: "contents h' e = enhancedGames look (contents h ga)"
    using sp by (simp add: contents_def res enhancedGames_def)
  have wf: "wellFormed h'"
  proof -
    have le: "length (objects h) \<le> length (objects h1)"
      using sp by (simp add: prefix_length_le)
    have "list_all (list_all (\<lambda>r. r < length (objects h1))) (arrays h)"
      unfolding list_all_iff
    proof (intro ballI)
      fix x r assume "x \<in> set (arrays h)" "r \<in> set x"
      with assms(1) have "r < length (objects h)" by (auto simp: wellFormed_def list_all_iff)
      with le show "r < length (objects h1)" by simp
    qed
    moreover have "list_all (\<lambda>r. r < length (objects h1)) refs"
      using sp by (simp add: list_all_iff)
    ultimately show ?thesis using sp by (simp add: wellFormed_def res)
  qed
  have p: "prefix (console h) (console h')"
    using sp res(4) by (blast intro: prefix_order.trans)
  from c show "contents h' e = enhancedGames look (contents h ga)" .
  from sp show "e = length (arrays h)" by (simp add: res)
  from sp show "length (arrays h') = Suc (length (arrays h))" by (simp add: res)
  from sp show "take (length (arrays h)) (arrays h') = arrays h" by (simp add: res)
  from sp show "prefix (objects h) (objects h')" by (simp add: res)
  from p show "prefix (console h) (console h')" .
  from wf show "wellFormed h'" .
qed



lemma prefix_take: "prefix xs ys \<Longrightarrow> take (length xs) ys = xs"
  by (auto simp: prefix_def)

lemma take_nth_eq: "take n ys = xs \<Longrightarrow> i < length xs \<Longrightarrow> ys ! i = xs ! i"
  by (metis nth_take length_take min_less_iff_conj)

text \<open>
  C8. Run the enhancer and then the pipeline on a well-formed heap, and again on any other
  one whose input array holds equal entries, whatever the two consoles hold. The sequences
  returned are those of the functions \<open>enhancedGames\<close> and \<open>filteredGames\<close>, which take
  neither a heap nor a console, so the two runs return equal sequences; every object and
  every array of the heap before the run is unchanged after it, the input array and the
  enhanced array among them.
\<close>

theorem core_functions_pure:
  assumes "wellFormed h" "ga < length (arrays h)"
    and "enhancedGamesHeap look ga h = (e, h1)"
    and "filteredGamesHeap lc e f sf q h1 = (r, h2)"
    and "wellFormed k" "gb < length (arrays k)"
    and "enhancedGamesHeap look gb k = (e', k1)"
    and "filteredGamesHeap lc e' f sf q k1 = (r', k2)"
    and "contents k gb = contents h ga"
  shows "contents h1 e = enhancedGames look (contents h ga) \<and>
         contents h2 r = filteredGames lc (contents h1 e) f sf q \<and>
         contents k1 e' = contents h1 e \<and>
         contents k2 r' = contents h2 r \<and>
         take (length (objects h)) (objects h2) = objects h \<and>
         take (length (arrays h)) (arrays h2) = arrays h \<and>
         contents h2 ga = contents h ga \<and>
         contents h2 e = contents h1 e"
proof -
  note eh = enhancedGamesHeap_spec [OF assms(1,2,3)]
  note ek = enhancedGamesHeap_spec [OF assms(5,6,7)]
  have e: "e < length (arrays h1)" and e': "e' < length (arrays k1)"
    using eh(2,3) ek(2,3) by simp_all
  from filteredGamesHeap_tracks [OF e assms(4)]
  have fh: "take (length (arrays h1)) (arrays h2) = arrays h1" "objects h2 = objects h1"
    "contents h2 r = filteredGames lc (contents h1 e) f sf q"
    by (simp_all add: tracks_def)
  from filteredGamesHeap_tracks [OF e' assms(8)]
  have fk: "contents k2 r' = filteredGames lc (contents k1 e') f sf q"
    by (simp add: tracks_def)
  have 1: "contents h1 e = enhancedGames look (contents h ga)" by (rule eh(1))
  have 2: "contents h2 r = filteredGames lc (contents h1 e) f sf q" by (rule fh(3))
  have 3: "contents k1 e' = contents h1 e" by (simp add: ek(1) 1 assms(9))
  have 4: "contents k2 r' = contents h2 r" by (simp add: fk 2 3)
  have 5: "take (length (objects h)) (objects h2) = objects h"
    using eh(5) by (simp add: fh(2) prefix_take)
  have "take (length (arrays h)) (take (length (arrays h1)) (arrays h2)) = arrays h"
    by (simp only: fh(1) eh(4))
  then have 6: "take (length (arrays h)) (arrays h2) = arrays h"
    by (simp add: eh(3) min_def)
  have a: "arrays h2 ! ga = arrays h ! ga"
    using 6 assms(2) by (rule take_nth_eq)
  have "\<forall>x \<in> set (arrays h ! ga). x < length (objects h)"
    using assms(1,2) by (auto simp: wellFormed_def list_all_iff)
  then have "map (\<lambda>x. objects h2 ! x) (arrays h ! ga) = map (\<lambda>x. objects h ! x) (arrays h ! ga)"
    using take_nth_eq [OF 5] by simp
  then have 7: "contents h2 ga = contents h ga"
    by (simp add: contents_def a)
  have "arrays h2 ! e = arrays h1 ! e"
    using fh(1) e by (rule take_nth_eq)
  then have 8: "contents h2 e = contents h1 e"
    by (simp add: contents_def fh(2))
  from 1 2 3 4 5 6 7 8 show ?thesis by (intro conjI)
qed


theorem core_functions_pure_witness:
  "wellFormed sampleHeap \<and> 0 < length (arrays sampleHeap) \<and>
   wellFormed otherHeap \<and> 1 < length (arrays otherHeap) \<and>
   contents otherHeap 1 = contents sampleHeap 0 \<and>
   console otherHeap \<noteq> console sampleHeap \<and>
   contents (snd sampleRun) (fst sampleRun) = [control, hades\<lparr>store := Some ''epic''\<rparr>] \<and>
   contents (snd otherRun) (fst otherRun) = contents (snd sampleRun) (fst sampleRun) \<and>
   contents (snd sampleRun) 0 = [hades, control]"
proof -
  let ?E = "enhancedGamesHeap attribution 0 sampleHeap"
  let ?F = "filteredGamesHeap caseFoldCompare (fst ?E) All ''all'' [] (snd ?E)"
  let ?E' = "enhancedGamesHeap attribution 1 otherHeap"
  let ?F' = "filteredGamesHeap caseFoldCompare (fst ?E') All ''all'' [] (snd ?E')"
  have w: "wellFormed sampleHeap" "0 < length (arrays sampleHeap)"
    "wellFormed otherHeap" "1 < length (arrays otherHeap)"
    by code_simp+
  have c: "contents otherHeap 1 = contents sampleHeap 0" by code_simp
  have d: "console otherHeap \<noteq> console sampleHeap" by code_simp
  have s: "sampleRun = ?F" "otherRun = ?F'"
    by (simp_all add: sampleRun_def otherRun_def case_prod_beta)
  have v: "contents (snd sampleRun) (fst sampleRun) = [control, hades\<lparr>store := Some ''epic''\<rparr>]"
    by code_simp
  have i: "contents sampleHeap 0 = [hades, control]" by code_simp
  note th = core_functions_pure [OF w(1) w(2) prod.collapse [symmetric] prod.collapse [symmetric]
      w(3) w(4) prod.collapse [symmetric] prod.collapse [symmetric] c,
      where look = attribution and lc = caseFoldCompare and f = All and sf = "''all''" and q = "[]"]
  from th have "contents (snd ?F') (fst ?F') = contents (snd ?F) (fst ?F)"
    by (elim conjE)
  then have r: "contents (snd otherRun) (fst otherRun) = contents (snd sampleRun) (fst sampleRun)"
    by (simp only: s)
  from th have "contents (snd ?F) 0 = contents sampleHeap 0"
    by (elim conjE)
  then have u: "contents (snd sampleRun) 0 = [hades, control]"
    by (simp only: s i)
  from w c d v r u show ?thesis by (intro conjI)
qed

section \<open>The render function and the error of the library hook\<close>

lemma enhanceEach_length: "enhanceEach look rs h = (rs', h') \<Longrightarrow> length rs' = length rs"
proof (induction rs arbitrary: h rs' h')
  case Nil
  then show ?case by simp
next
  case (Cons r rs)
  then show ?case
    by (auto simp: Let_def split: prod.splits)
qed

lemma enhancedGamesHeap_console:
  assumes "enhancedGamesHeap look ga h = (e, h')"
  shows "LogEnhanced (length (arrays h ! ga)) \<in> set (console h')" and "e < length (arrays h')"
proof -
  obtain refs h1 where s1: "enhanceEach look (arrays h ! ga) h = (refs, h1)" by fastforce
  have n: "length refs = length (arrays h ! ga)" using s1 by (rule enhanceEach_length)
  from assms have "console h' = console h1 @
      [LogEnhanced (length refs),
       LogStoreCounts (foldl (\<lambda>acc r. bump (storeKey (objects h1 ! r)) acc) [] refs)]"
    and "e = length (arrays h1)" and "arrays h' = arrays h1 @ [refs]"
    by (auto simp: enhancedGamesHeap_def s1 Let_def allocArray_def consoleLog_def)
  then show "LogEnhanced (length (arrays h ! ga)) \<in> set (console h')" and "e < length (arrays h')"
    by (simp_all add: n)
qed

lemma enhanceEach_arrays: "enhanceEach look rs h = (rs', h') \<Longrightarrow> arrays h' = arrays h"
proof (induction rs arbitrary: h rs' h')
  case Nil
  then show ?case by simp
next
  case (Cons r rs)
  then show ?case
    by (fastforce simp: Let_def allocObject_def consoleLog_def split: prod.splits if_splits)
qed

lemma enhancedGamesHeap_fresh:
  assumes "enhancedGamesHeap look ga h = (e, h')"
  shows "e = length (arrays h)"
proof -
  obtain refs h1 where s1: "enhanceEach look (arrays h ! ga) h = (refs, h1)" by fastforce
  have "arrays h1 = arrays h" using s1 by (rule enhanceEach_arrays)
  moreover from assms have "e = length (arrays h1)"
    by (auto simp: enhancedGamesHeap_def s1 Let_def allocArray_def consoleLog_def)
  ultimately show ?thesis by simp
qed

lemma useMemo_stale:
  "stale cache deps \<Longrightarrow>
   useMemo cache deps compute h = ((fst (compute h), Some (deps, fst (compute h))), snd (compute h))"
  by (auto simp: stale_def useMemo_def case_prod_beta split: option.splits)

lemma useMemo_kept:
  "useMemo (Some (deps, v)) deps compute h = ((v, Some (deps, v)), h)"
  by (simp add: useMemo_def)


text \<open>
  C9, as stated, fails on the first render with an error: the component returns the error
  field, and the heap and the console show that both memo callbacks have run; the enhanced
  array and the sorted array are allocated and the enhancer's lines are printed.
\<close>

theorem error_render_counterexample:
  "truthy (error failedLibrary) \<and>
   UnifiedLibraryViewInner caseFoldCompare All failedLibrary sampleUnifideck initialState sampleHeap =
     (ErrorField ''timeout'',
      \<lparr>storeFilter = ''all'', searchQuery = [], enhancedMemo = Some ((0, 7), 1),
         filteredMemo = Some ((1, All, ''all'', []), 2)\<rparr>,
      \<lparr>objects = [hades, control, hades\<lparr>store := Some ''epic''\<rparr>],
         arrays = [[0, 1], [2, 1], [1, 2]],
         console = [LogRender All, LogNoMetadata 2 ''Control'' (Some ''unknown''),
           LogEnhanced 2, LogStoreCounts [(''epic'', 1), (''unknown'', 1)]]\<rparr>)"
  by code_simp

text \<open>
  C9, amended. Whenever the library hook reports an error (an error value that is not
  empty), the component returns the error field with the error text in place of the library
  panel, whatever the pipeline computes. The pipeline is invoked all the same, before the
  error is tested, and the hooks do the same with and without an error: the enhancer runs
  whenever its memo cell is stale, and its line is printed; the filter and sort runs whenever
  its memo cell is stale, which it is after every run of the enhancer when the cell refers
  to an array of the heap, and leaves its result in a new array; with both cells up to date
  nothing but the render line is added.
\<close>

theorem error_render:
  "let R = UnifiedLibraryViewInner lc filt lib uni st h;
       h0 = consoleLog (LogRender filt) h;
       d1 = (games lib, gameMetadata uni);
       E = enhancedGamesHeap (getStoreForApp uni) (games lib) h0;
       d2 = (\<lambda>e. (e, filt, storeFilter st, searchQuery st));
       F = (\<lambda>e k. filteredGamesHeap lc e filt (storeFilter st) (searchQuery st) k)
   in (truthy (error lib) \<longrightarrow>
         fst R = ErrorField (the (error lib)) \<and>
         (\<forall>lc' filt' uni' st' h'.
            fst (UnifiedLibraryViewInner lc' filt' lib uni' st' h') = fst R)) \<and>
      (\<forall>x. snd (UnifiedLibraryViewInner lc filt (lib\<lparr>error := x\<rparr>) uni st h) = snd R) \<and>
      (stale (enhancedMemo st) d1 \<longrightarrow>
         LogEnhanced (length (arrays h ! games lib)) \<in> set (console (snd (snd R))) \<and>
         ((\<forall>d w. filteredMemo st = Some (d, w) \<longrightarrow> fst d < length (arrays h)) \<longrightarrow>
            stale (filteredMemo st) (d2 (fst E))) \<and>
         (stale (filteredMemo st) (d2 (fst E)) \<longrightarrow>
            snd R =
              (st\<lparr>enhancedMemo := Some (d1, fst E),
                  filteredMemo := Some (d2 (fst E), fst (F (fst E) (snd E)))\<rparr>,
               snd (F (fst E) (snd E))) \<and>
            length (arrays h) + 2 \<le> length (arrays (snd (snd R))))) \<and>
      (\<forall>v. enhancedMemo st = Some (d1, v) \<longrightarrow>
         (stale (filteredMemo st) (d2 v) \<longrightarrow>
            snd R =
              (st\<lparr>enhancedMemo := Some (d1, v),
                  filteredMemo := Some (d2 v, fst (F v h0))\<rparr>,
               snd (F v h0)) \<and>
            (v < length (arrays h) \<longrightarrow>
               tracks h0 (snd (F v h0)) (fst (F v h0))
                 (filteredGames lc (contents h v) filt (storeFilter st) (searchQuery st)))) \<and>
         (\<forall>w. filteredMemo st = Some (d2 v, w) \<longrightarrow> snd R = (st, h0)))"
proof -
  let ?R = "UnifiedLibraryViewInner lc filt lib uni st h"
  let ?h0 = "consoleLog (LogRender filt) h"
  let ?d1 = "(games lib, gameMetadata uni)"
  let ?E = "enhancedGamesHeap (getStoreForApp uni) (games lib) ?h0"
  let ?d2 = "\<lambda>e. (e, filt, storeFilter st, searchQuery st)"
  let ?F = "\<lambda>e k. filteredGamesHeap lc e filt (storeFilter st) (searchQuery st) k"
  have view: "fst (UnifiedLibraryViewInner lc' filt' lib uni' st' h') = ErrorField (the (error lib))"
    if "truthy (error lib)" for lc' filt' uni' st' h'
    using that by (simp add: UnifiedLibraryViewInner_def Let_def split: prod.splits)
  have hooks: "snd (UnifiedLibraryViewInner lc filt (lib\<lparr>error := x\<rparr>) uni st h) = snd ?R" for x
    by (simp add: UnifiedLibraryViewInner_def Let_def split: prod.splits)
  have E: "?E = (fst ?E, snd ?E)" by simp
  have eF: "fst ?E = length (arrays h)"
    using enhancedGamesHeap_fresh [OF E] by (simp add: consoleLog_def)
  have eL: "fst ?E < length (arrays (snd ?E))"
    using E by (rule enhancedGamesHeap_console(2))
  have lE: "LogEnhanced (length (arrays h ! games lib)) \<in> set (console (snd ?E))"
    using enhancedGamesHeap_console(1) [OF E] by (simp add: consoleLog_def)
  have tE: "tracks (snd ?E) (snd (?F (fst ?E) (snd ?E))) (fst (?F (fst ?E) (snd ?E)))
      (filteredGames lc (contents (snd ?E) (fst ?E)) filt (storeFilter st) (searchQuery st))"
    using eL by (rule filteredGamesHeap_tracks) simp
  have valid: "stale (filteredMemo st) (?d2 (fst ?E))"
    if "\<forall>d w. filteredMemo st = Some (d, w) \<longrightarrow> fst d < length (arrays h)"
    using that eF by (auto simp: stale_def split: option.splits)
  have both: "snd ?R =
      (st\<lparr>enhancedMemo := Some (?d1, fst ?E),
          filteredMemo := Some (?d2 (fst ?E), fst (?F (fst ?E) (snd ?E)))\<rparr>,
       snd (?F (fst ?E) (snd ?E)))"
    if s1: "stale (enhancedMemo st) ?d1" and s2: "stale (filteredMemo st) (?d2 (fst ?E))"
    by (simp add: UnifiedLibraryViewInner_def Let_def useMemo_stale [OF s1] useMemo_stale [OF s2])
  have grown: "length (arrays h) + 2 \<le> length (arrays (snd (snd ?R)))"
    if s1: "stale (enhancedMemo st) ?d1" and s2: "stale (filteredMemo st) (?d2 (fst ?E))"
    using tE eL eF by (simp add: both [OF s1 s2] tracks_def)
  have printed: "LogEnhanced (length (arrays h ! games lib)) \<in> set (console (snd (snd ?R)))"
    if s1: "stale (enhancedMemo st) ?d1"
  proof (cases "stale (filteredMemo st) (?d2 (fst ?E))")
    case True
    from tE have "console (snd (?F (fst ?E) (snd ?E))) = console (snd ?E)"
      by (simp add: tracks_def)
    with lE show ?thesis by (simp add: both [OF s1 True])
  next
    case False
    then obtain w where w: "filteredMemo st = Some (?d2 (fst ?E), w)"
      by (auto simp: stale_def split: option.splits)
    have "snd (snd ?R) = snd ?E"
      by (simp add: UnifiedLibraryViewInner_def Let_def useMemo_stale [OF s1] w useMemo_kept)
    with lE show ?thesis by simp
  qed
  have second: "snd ?R =
      (st\<lparr>enhancedMemo := Some (?d1, v), filteredMemo := Some (?d2 v, fst (?F v ?h0))\<rparr>,
       snd (?F v ?h0))"
    if k1: "enhancedMemo st = Some (?d1, v)" and s2: "stale (filteredMemo st) (?d2 v)" for v
    using s2 by (simp add: UnifiedLibraryViewInner_def Let_def k1 useMemo_kept useMemo_stale)
  have result: "tracks ?h0 (snd (?F v ?h0)) (fst (?F v ?h0))
      (filteredGames lc (contents h v) filt (storeFilter st) (searchQuery st))"
    if "v < length (arrays h)" for v
  proof -
    have "v < length (arrays ?h0)" using that by (simp add: consoleLog_def)
    then have "tracks ?h0 (snd (?F v ?h0)) (fst (?F v ?h0))
      (filteredGames lc (contents ?h0 v) filt (storeFilter st) (searchQuery st))"
      by (rule filteredGamesHeap_tracks) simp
    then show ?thesis by (simp add: contents_def consoleLog_def)
  qed
  have none: "snd ?R = (st, ?h0)"
    if k1: "enhancedMemo st = Some (?d1, v)" and k2: "filteredMemo st = Some (?d2 v, w)" for v w
  proof -
    have "st\<lparr>enhancedMemo := Some (?d1, v), filteredMemo := Some (?d2 v, w)\<rparr> = st"
      using k1 k2 by (cases st) simp
    then show ?thesis
      by (simp add: UnifiedLibraryViewInner_def Let_def k1 k2 useMemo_kept)
  qed
  have c1: "truthy (error lib) \<longrightarrow>
         fst ?R = ErrorField (the (error lib)) \<and>
         (\<forall>lc' filt' uni' st' h'.
            fst (UnifiedLibraryViewInner lc' filt' lib uni' st' h') = fst ?R)"
    by (simp add: view)
  have c2: "\<forall>x. snd (UnifiedLibraryViewInner lc filt (lib\<lparr>error := x\<rparr>) uni st h) = snd ?R"
    by (intro allI) (rule hooks)
  have c3: "stale (enhancedMemo st) ?d1 \<longrightarrow>
         LogEnhanced (length (arrays h ! games lib)) \<in> set (console (snd (snd ?R))) \<and>
         ((\<forall>d w. filteredMemo st = Some (d, w) \<longrightarrow> fst d < length (arrays h)) \<longrightarrow>
            stale (filteredMemo st) (?d2 (fst ?E))) \<and>
         (stale (filteredMemo st) (?d2 (fst ?E)) \<longrightarrow>
            snd ?R =
              (st\<lparr>enhancedMemo := Some (?d1, fst ?E),
                  filteredMemo := Some (?d2 (fst ?E), fst (?F (fst ?E) (snd ?E)))\<rparr>,
               snd (?F (fst ?E) (snd ?E))) \<and>
            length (arrays h) + 2 \<le> length (arrays (snd (snd ?R))))"
  proof (intro impI conjI)
    assume s1: "stale (enhancedMemo st) ?d1"
    from s1 show "LogEnhanced (length (arrays h ! games lib)) \<in> set (console (snd (snd ?R)))"
      by (rule printed)
    { assume "\<forall>d w. filteredMemo st = Some (d, w) \<longrightarrow> fst d < length (arrays h)"
      then show "stale (filteredMemo st) (?d2 (fst ?E))" by (rule valid) }
    { assume s2: "stale (filteredMemo st) (?d2 (fst ?E))"
      from s1 s2 show "snd ?R =
              (st\<lparr>enhancedMemo := Some (?d1, fst ?E),
                  filteredMemo := Some (?d2 (fst ?E), fst (?F (fst ?E) (snd ?E)))\<rparr>,
               snd (?F (fst ?E) (snd ?E)))"
        by (rule both)
      from s1 s2 show "length (arrays h) + 2 \<le> length (arrays (snd (snd ?R)))"
        by (rule grown) }
  qed
  have c4: "\<forall>v. enhancedMemo st = Some (?d1, v) \<longrightarrow>
         (stale (filteredMemo st) (?d2 v) \<longrightarrow>
            snd ?R =
              (st\<lparr>enhancedMemo := Some (?d1, v),
                  filteredMemo := Some (?d2 v, fst (?F v ?h0))\<rparr>,
               snd (?F v ?h0)) \<and>
            (v < length (arrays h) \<longrightarrow>
               tracks ?h0 (snd (?F v ?h0)) (fst (?F v ?h0))
                 (filteredGames lc (contents h v) filt (storeFilter st) (searchQuery st)))) \<and>
         (\<forall>w. filteredMemo st = Some (?d2 v, w) \<longrightarrow> snd ?R = (st, ?h0))"
  proof (intro allI impI conjI)
    fix v assume k1: "enhancedMemo st = Some (?d1, v)"
    { assume s2: "stale (filteredMemo st) (?d2 v)"
      from k1 s2 show "snd ?R =
              (st\<lparr>enhancedMemo := Some (?d1, v),
                  filteredMemo := Some (?d2 v, fst (?F v ?h0))\<rparr>,
               snd (?F v ?h0))"
        by (rule second)
      { assume "v < length (arrays h)"
        then show "tracks ?h0 (snd (?F v ?h0)) (fst (?F v ?h0))
                 (filteredGames lc (contents h v) filt (storeFilter st) (searchQuery st))"
          by (rule result) } }
    { fix w assume "filteredMemo st = Some (?d2 v, w)"
      with k1 show "snd ?R = (st, ?h0)" by (rule none) }
  qed
  from c1 c2 c3 c4 show ?thesis
    unfolding Let_def by (intro conjI)
qed


theorem error_render_witness:
  "truthy (error failedLibrary) \<and>
   fst firstRender = ErrorField ''timeout'' \<and>
   stale (enhancedMemo initialState) (games failedLibrary, gameMetadata sampleUnifideck) \<and>
   LogEnhanced 2 \<in> set (console (snd (snd firstRender))) \<and>
   enhancedMemo (fst (snd firstRender)) = Some ((0, 7), 1) \<and>
   stale (filteredMemo (fst (snd firstRender))) (1, Installed, ''all'', []) \<and>
   filteredMemo (fst (snd secondRender)) = Some ((1, Installed, ''all'', []), 4) \<and>
   contents (snd (snd secondRender)) 4 = [hades\<lparr>store := Some ''epic''\<rparr>] \<and>
   snd thirdRender =
     (fst (snd secondRender), consoleLog (LogRender Installed) (snd (snd secondRender)))"
proof -
  let ?st1 = "fst (snd firstRender)" and ?h1 = "snd (snd firstRender)"
  let ?st2 = "fst (snd secondRender)" and ?h2 = "snd (snd secondRender)"
  have t: "truthy (error failedLibrary)" by code_simp
  have e: "the (error failedLibrary) = ''timeout''" by code_simp
  have s0: "stale (enhancedMemo initialState) (games failedLibrary, gameMetadata sampleUnifideck)"
    by code_simp
  have g: "length (arrays sampleHeap ! games failedLibrary) = 2" by code_simp
  have m1: "enhancedMemo ?st1 = Some ((0, 7), 1)" by code_simp
  have s1: "stale (filteredMemo ?st1) (1, Installed, ''all'', [])" by code_simp
  have m2: "filteredMemo ?st2 = Some ((1, Installed, ''all'', []), 4)" by code_simp
  have c2: "contents ?h2 4 = [hades\<lparr>store := Some ''epic''\<rparr>]" by code_simp
  have k1: "enhancedMemo ?st2 = Some ((games failedLibrary, gameMetadata sampleUnifideck), 1)"
    by code_simp
  have k2: "filteredMemo ?st2 = Some ((1, Installed, storeFilter ?st2, searchQuery ?st2), 4)"
    by code_simp
  note th1 = error_render [of caseFoldCompare All failedLibrary sampleUnifideck initialState
      sampleHeap, unfolded Let_def]
  note th3 = error_render [of caseFoldCompare Installed failedLibrary sampleUnifideck ?st2 ?h2,
      unfolded Let_def]
  from th1 [THEN conjunct1, THEN mp, OF t, THEN conjunct1]
  have v: "fst firstRender = ErrorField ''timeout''"
    by (simp only: firstRender_def e)
  from th1 [THEN conjunct2, THEN conjunct2, THEN conjunct1, THEN mp, OF s0, THEN conjunct1]
  have l: "LogEnhanced 2 \<in> set (console (snd (snd firstRender)))"
    by (simp only: firstRender_def g)
  from th3 [THEN conjunct2, THEN conjunct2, THEN conjunct2, THEN spec, of 1, THEN mp, OF k1,
      THEN conjunct2, THEN spec, of 4, THEN mp, OF k2]
  have n: "snd thirdRender = (?st2, consoleLog (LogRender Installed) ?h2)"
    by (simp only: thirdRender_def)
  from t v s0 l m1 s1 m2 c2 n show ?thesis by (intro conjI)
qed


end
